theory Spec2Isabelle
  imports Complex_Main
begin

section \<open>The node store: parent, index and children\<close>

text \<open>
  Tree mutation in \<^verbatim>\<open>Container.ts\<close> works on shared, mutable node objects: a child is
  held in its parent's \<^verbatim>\<open>children\<close> array and points back through \<^verbatim>\<open>parent\<close> and
  \<^verbatim>\<open>index\<close>. The store maps an object reference (a natural number) to the three fields
  the mutations touch. The field \<^verbatim>\<open>children\<close> is initialised to \<^verbatim>\<open>[]\<close> (line 32) and the
  only assignments to it in the file assign \<^verbatim>\<open>[]\<close> again (lines 85 and 100), so the
  fallbacks \<^verbatim>\<open>this.children || []\<close> and \<^verbatim>\<open>this.children?.\<close> are never taken on a
  constructed container and the field is a list.
\<close>

record obj =
  parent :: "nat option"
  index :: nat
  children :: "nat list"

type_synonym store = "nat \<Rightarrow> obj"

datatype error = TypeError | ValidateAddError

text \<open>\<^verbatim>\<open>getChildren()\<close> without a filter (lines 49-52) and \<^verbatim>\<open>getParent()\<close>.\<close>

definition getChildren :: "store \<Rightarrow> nat \<Rightarrow> nat list" where
  "getChildren h c = children (h c)"

definition getParent :: "store \<Rightarrow> nat \<Rightarrow> nat option" where
  "getParent h k = parent (h k)"

text \<open>
  \<^verbatim>\<open>_setChildrenIndices\<close> (lines 324-329): \<^verbatim>\<open>forEach((child, n) => child.index = n)\<close>.
  The redraw request does not touch the three fields.
\<close>

definition setIndex :: "store \<Rightarrow> nat \<times> nat \<Rightarrow> store" where
  "setIndex h p = (case p of (n, child) \<Rightarrow> h(child := (h child)\<lparr>index := n\<rparr>))"

definition setChildrenIndices :: "store \<Rightarrow> nat \<Rightarrow> store" where
  "setChildrenIndices h c = foldl setIndex h (enumerate 0 (children (h c)))"

text \<open>
  Modelled from the spec: \<^verbatim>\<open>Node.remove\<close> lies outside \<^verbatim>\<open>Container.ts\<close>. Section 3: a child "is detached
  via removal (clears parent/index)", the parent's child sequence is the sole ownership
  record, and by I1 a mutation of the sequence restores the indices before it returns
  (the renumbering pass of section 4.1, which is \<^verbatim>\<open>_setChildrenIndices\<close>). A node without
  a parent is left as it is.
\<close>

definition remove_node :: "store \<Rightarrow> nat \<Rightarrow> store" where
  "remove_node h k =
     (case parent (h k) of
        None \<Rightarrow> h
      | Some p \<Rightarrow>
          (let h1 = h(p := (h p)\<lparr>children := remove1 k (children (h p))\<rparr>);
               h2 = setChildrenIndices h1 p
           in h2(k := (h2 k)\<lparr>parent := None, index := 0\<rparr>)))"

text \<open>
  The tail of \<^verbatim>\<open>add\<close> (lines 130-132): \<^verbatim>\<open>child.index = this.getChildren().length\<close>,
  \<^verbatim>\<open>child.parent = this\<close>, \<^verbatim>\<open>this.getChildren().push(child)\<close>. The count is read before
  the push; when the child is the container itself the three writes hit one object.
  \<^verbatim>\<open>_clearCaches\<close>, \<^verbatim>\<open>_fire\<close> and \<^verbatim>\<open>_requestDraw\<close> leave the three fields alone.
\<close>

definition attach :: "store \<Rightarrow> nat \<Rightarrow> nat \<Rightarrow> store" where
  "attach h c child =
     (let n = length (getChildren h c);
          h1 = h(child := (h child)\<lparr>index := n\<rparr>);
          h2 = h1(child := (h1 child)\<lparr>parent := Some c\<rparr>)
      in h2(c := (h2 c)\<lparr>children := children (h2 c) @ [child]\<rparr>))"

text \<open>
  \<^verbatim>\<open>add\<close> of a node without a parent (lines 128-138). \<^verbatim>\<open>_validateAdd\<close> is abstract:
  the concrete container's hook is the parameter \<open>va\<close>, which is False where the hook
  throws. The throw comes before any write of this path.
\<close>

definition addNew :: "(nat \<Rightarrow> nat \<Rightarrow> bool) \<Rightarrow> nat \<Rightarrow> nat \<Rightarrow> store \<Rightarrow> error option \<times> store" where
  "addNew va c child h =
     (if \<not> va c child then (Some ValidateAddError, h)
      else (None, attach h c child))"

text \<open>
  Modelled from the spec: \<^verbatim>\<open>Node.moveTo\<close> lies outside \<^verbatim>\<open>Container.ts\<close>. Section 4.1: a
  node that already has a parent "is moved to this container (detach from old parent,
  reattach here)". The reattach is the new container's \<^verbatim>\<open>add\<close> of the node, which has no
  parent any more, so the validity hook of that path runs and its failure surfaces to the
  caller (section 7) with the node already detached. A node that is added to the container
  that is its parent already stays where it is (Scenario B: no duplicate entry, the index
  remains).
\<close>

definition moveTo :: "(nat \<Rightarrow> nat \<Rightarrow> bool) \<Rightarrow> store \<Rightarrow> nat \<Rightarrow> nat \<Rightarrow> error option \<times> store" where
  "moveTo va h k c =
     (if getParent h k = Some c then (None, h)
      else addNew va c k (remove_node h k))"


text \<open>\<^verbatim>\<open>add\<close> with one argument (lines 123-138).\<close>

definition add1 :: "(nat \<Rightarrow> nat \<Rightarrow> bool) \<Rightarrow> nat \<Rightarrow> nat \<Rightarrow> store \<Rightarrow> error option \<times> store" where
  "add1 va c child h =
     (case getParent h child of
        Some p \<Rightarrow> moveTo va h child c
      | None \<Rightarrow> addNew va c child h)"

text \<open>
  The loop of lines 117-122: each argument is added in call order; an exception leaves
  the loop with the earlier arguments added and the store as the failed call left it.
\<close>

fun addEach :: "(nat \<Rightarrow> nat \<Rightarrow> bool) \<Rightarrow> nat \<Rightarrow> nat list \<Rightarrow> store \<Rightarrow> error option \<times> store" where
  "addEach va c [] h = (None, h)"
| "addEach va c (child # rest) h =
     (case add1 va c child h of
        (Some e, h') \<Rightarrow> (Some e, h')
      | (None, h') \<Rightarrow> addEach va c rest h')"

text \<open>
  \<^verbatim>\<open>add(...children)\<close> (lines 116-139). Without an argument \<^verbatim>\<open>children[0]\<close> is
  \<^verbatim>\<open>undefined\<close> and \<^verbatim>\<open>child.getParent()\<close> raises a TypeError.
\<close>

definition add :: "(nat \<Rightarrow> nat \<Rightarrow> bool) \<Rightarrow> nat \<Rightarrow> nat list \<Rightarrow> store \<Rightarrow> error option \<times> store" where
  "add va c args h =
     (if length args > 1 then addEach va c args h
      else case args of
             [] \<Rightarrow> (Some TypeError, h)
           | child # _ \<Rightarrow> add1 va c child h)"

text \<open>
  \<^verbatim>\<open>removeChildren\<close> (lines 78-87): every child has its parent and index reset and is then
  removed (which finds no parent any more); the array is replaced by an empty one.
\<close>

definition resetChild :: "nat \<Rightarrow> store \<Rightarrow> store" where
  "resetChild child h =
     (let h1 = h(child := (h child)\<lparr>parent := None\<rparr>);
          h2 = h1(child := (h1 child)\<lparr>index := 0\<rparr>)
      in remove_node h2 child)"

definition removeChildren :: "store \<Rightarrow> nat \<Rightarrow> store" where
  "removeChildren h c =
     (let h1 = fold resetChild (getChildren h c) h
      in h1(c := (h1 c)\<lparr>children := []\<rparr>))"

text \<open>A caller's sequence of mutations; a caller that catches an exception goes on with
  the store the failed call left.\<close>

datatype mutation = Add nat "nat list" | Remove nat | RemoveChildren nat

fun exec_op :: "(nat \<Rightarrow> nat \<Rightarrow> bool) \<Rightarrow> mutation \<Rightarrow> store \<Rightarrow> error option \<times> store" where
  "exec_op va (Add c args) h = add va c args h"
| "exec_op va (Remove k) h = (None, remove_node h k)"
| "exec_op va (RemoveChildren c) h = (None, removeChildren h c)"

fun run_ops :: "(nat \<Rightarrow> nat \<Rightarrow> bool) \<Rightarrow> mutation list \<Rightarrow> store \<Rightarrow> store" where
  "run_ops va [] h = h"
| "run_ops va (x # xs) h = run_ops va xs (snd (exec_op va x h))"

text \<open>Invariant I1 at one container, and in the whole store.\<close>

definition I1_at :: "store \<Rightarrow> nat \<Rightarrow> bool" where
  "I1_at h c =
     list_all (\<lambda>(i, k). parent (h k) = Some c \<and> index (h k) = i) (enumerate 0 (children (h c)))"

definition I1 :: "store \<Rightarrow> bool" where
  "I1 h = (\<forall>c. I1_at h c)"

text \<open>A store of unattached, empty nodes.\<close>

definition fresh :: store where
  "fresh = (\<lambda>_. \<lparr>parent = None, index = 0, children = []\<rparr>)"




section \<open>The scene tree\<close>

text \<open>
  Search, cache invalidation, drawing and the client rectangle read the tree and do not
  depend on aliasing, so they are modelled on a tree datatype. A node carries the values
  of the \<^verbatim>\<open>Node\<close> accessors these functions call (all defined outside \<^verbatim>\<open>Container.ts\<close>): \<open>nid\<close>
  is the object's \<^verbatim>\<open>_id\<close>, \<open>visible\<close> the own flag \<^verbatim>\<open>visible()\<close>, \<open>isVisible\<close> the result of
  \<^verbatim>\<open>isVisible()\<close>, \<open>shouldDrawHit\<close> the result of \<^verbatim>\<open>shouldDrawHit(top)\<close>, \<open>canvasCache\<close> the
  result of \<^verbatim>\<open>_getCanvasCache()\<close>, \<open>layerCanvas\<close> and \<open>layerHitCanvas\<close> the values of
  \<^verbatim>\<open>layer && layer.getCanvas()\<close> and \<^verbatim>\<open>layer && layer.hitCanvas\<close>, \<open>cachedAttrs\<close> the names
  of the computed attributes the node caches. Numbers are real numbers: no rounding and
  no NaN.
\<close>

record canvas =
  cid :: nat
  isCache :: bool

record cache =
  scene :: "nat option"
  hit :: "nat option"

record attrs =
  nid :: nat
  visible :: bool
  isVisible :: bool
  shouldDrawHit :: "nat option \<Rightarrow> bool"
  canvasCache :: "cache option"
  cachedAttrs :: "string list"
  layerCanvas :: "canvas option"
  layerHitCanvas :: "canvas option"
  clipX :: "real option"
  clipY :: "real option"
  clipWidth :: "real option"
  clipHeight :: "real option"
  clipFunc :: "nat option"
  globalCompositeOperation :: string

datatype node = Shape attrs | Container attrs "node list"

fun attrs_of :: "node \<Rightarrow> attrs" where
  "attrs_of (Shape a) = a"
| "attrs_of (Container a cs) = a"

text \<open>\<^verbatim>\<open>getChildren()\<close> and \<^verbatim>\<open>hasChildren()\<close> (lines 49-52, 69-71); a leaf has no children.\<close>

fun getChildren_of :: "node \<Rightarrow> node list" where
  "getChildren_of (Shape a) = []"
| "getChildren_of (Container a cs) = cs"

definition hasChildren :: "node \<Rightarrow> bool" where
  "hasChildren n = (length (getChildren_of n) > 0)"

subsection \<open>Search\<close>

text \<open>
  A selector is a string or a predicate. \<^verbatim>\<open>Node._isMatch\<close> lies outside \<^verbatim>\<open>Container.ts\<close>: the
  matcher is the parameter \<open>isMatch\<close> of every function below.
\<close>

datatype selector = SelString string | SelFunction "node \<Rightarrow> bool"

text \<open>
  \<^verbatim>\<open>_descendants(fn)\<close> (lines 233-250). The callback of the source writes to a variable
  of its closure; here it takes and returns that state. The result is the stop signal.
\<close>

fun descendants :: "(node \<Rightarrow> 's \<Rightarrow> bool \<times> 's) \<Rightarrow> node list \<Rightarrow> 's \<Rightarrow> bool \<times> 's" where
  "descendants fn [] s = (False, s)"
| "descendants fn (Shape a # rest) s =
     (case fn (Shape a) s of
        (True, s1) \<Rightarrow> (True, s1)
      | (False, s1) \<Rightarrow> descendants fn rest s1)"
| "descendants fn (Container a cs # rest) s =
     (case fn (Container a cs) s of
        (True, s1) \<Rightarrow> (True, s1)
      | (False, s1) \<Rightarrow>
          if \<not> hasChildren (Container a cs) then descendants fn rest s1
          else (case descendants fn cs s1 of
                  (True, s2) \<Rightarrow> (True, s2)
                | (False, s2) \<Rightarrow> descendants fn rest s2))"

text \<open>The callback of \<^verbatim>\<open>_generalFind\<close> (lines 220-229); the state is \<^verbatim>\<open>retArr\<close>.\<close>

definition findCallback :: "(selector \<Rightarrow> node \<Rightarrow> bool) \<Rightarrow> selector \<Rightarrow> bool \<Rightarrow> node \<Rightarrow> node list \<Rightarrow> bool \<times> node list" where
  "findCallback isMatch sel findOne n retArr =
     (let valid = isMatch sel n;
          retArr1 = (if valid then retArr @ [n] else retArr)
      in if valid \<and> findOne then (True, retArr1) else (False, retArr1))"

definition generalFind :: "(selector \<Rightarrow> node \<Rightarrow> bool) \<Rightarrow> selector \<Rightarrow> bool \<Rightarrow> node \<Rightarrow> node list" where
  "generalFind isMatch sel findOne this =
     snd (descendants (findCallback isMatch sel findOne) (getChildren_of this) [])"

text \<open>\<^verbatim>\<open>find\<close> (lines 187-191) and \<^verbatim>\<open>findOne\<close> (lines 210-213); \<open>None\<close> is \<^verbatim>\<open>undefined\<close>.\<close>

definition find_nodes :: "(selector \<Rightarrow> node \<Rightarrow> bool) \<Rightarrow> selector \<Rightarrow> node \<Rightarrow> node list" where
  "find_nodes isMatch sel this = generalFind isMatch sel False this"

definition findOne :: "(selector \<Rightarrow> node \<Rightarrow> bool) \<Rightarrow> selector \<Rightarrow> node \<Rightarrow> node option" where
  "findOne isMatch sel this =
     (let result = generalFind isMatch sel True this
      in if length result > 0 then Some (result ! 0) else None)"

text \<open>
  To speak of the nodes a traversal visits, a callback is wrapped so that it also records
  each node it is called on; the wrapped callback returns what the callback returns.
\<close>

definition traced :: "(node \<Rightarrow> 's \<Rightarrow> bool \<times> 's) \<Rightarrow> node \<Rightarrow> 's \<times> node list \<Rightarrow> bool \<times> ('s \<times> node list)" where
  "traced fn n st = (case fn n (fst st) of (b, s1) \<Rightarrow> (b, (s1, snd st @ [n])))"

definition visited :: "(selector \<Rightarrow> node \<Rightarrow> bool) \<Rightarrow> selector \<Rightarrow> bool \<Rightarrow> node \<Rightarrow> node list" where
  "visited isMatch sel one this =
     snd (snd (descendants (traced (findCallback isMatch sel one)) (getChildren_of this) ([], [])))"

text \<open>
  The order the spec names (section 4.2): pre-order depth-first over the descendants,
  children in sequence order, each child's subtree before the next sibling.
\<close>

fun preorder :: "node list \<Rightarrow> node list" where
  "preorder [] = []"
| "preorder (Shape a # rest) = Shape a # preorder rest"
| "preorder (Container a cs # rest) = Container a cs # preorder cs @ preorder rest"

subsection \<open>Cache invalidation\<close>

text \<open>
  Modelled from the spec: \<^verbatim>\<open>Node.isCached\<close> lies outside \<^verbatim>\<open>Container.ts\<close>. Section 9: the cache is a
  tagged state per container, uncached or cached with its bitmaps; a node is cached when
  it holds the cache entry.
\<close>

definition isCached :: "attrs \<Rightarrow> bool" where
  "isCached a = (canvasCache a \<noteq> None)"

text \<open>
  \<^verbatim>\<open>_clearSelfAndDescendantCache(attr)\<close> (lines 313-323). The base method of \<^verbatim>\<open>Node\<close>
  that \<^verbatim>\<open>super\<close> calls (and that a leaf runs) lies outside the file: it is the parameter
  \<open>base\<close>, which works on the node's own state. \<^verbatim>\<open>isCached()\<close> is read after it.
\<close>

fun clearSelfAndDescendantCache :: "(string option \<Rightarrow> attrs \<Rightarrow> attrs) \<Rightarrow> string option \<Rightarrow> node \<Rightarrow> node" where
  "clearSelfAndDescendantCache base attr (Shape a) = Shape (base attr a)"
| "clearSelfAndDescendantCache base attr (Container a cs) =
     (let a1 = base attr a
      in if isCached a1 then Container a1 cs
         else Container a1 (map (clearSelfAndDescendantCache base attr) cs))"

text \<open>
  Modelled from the spec: the base method \<^verbatim>\<open>Node._clearSelfAndDescendantCache\<close> lies
  outside \<^verbatim>\<open>Container.ts\<close>. Section 4.6: the node's own caches "are cleared by the base
  node behavior". A call that names an attribute clears the cache of that computed
  attribute; a call that names none clears every cache the node holds, its bitmaps among
  them.
\<close>

definition Node_clearSelfAndDescendantCache :: "string option \<Rightarrow> attrs \<Rightarrow> attrs" where
  "Node_clearSelfAndDescendantCache attr a =
     (case attr of
        None \<Rightarrow> a\<lparr>canvasCache := None, cachedAttrs := []\<rparr>
      | Some s \<Rightarrow> a\<lparr>cachedAttrs := removeAll s (cachedAttrs a)\<rparr>)"


subsection \<open>Drawing\<close>

text \<open>
  The drawing surface is external. A draw is modelled by the calls it makes, in order:
  a call on the context of a canvas, or the draw of a leaf (\<^verbatim>\<open>Shape.drawScene\<close> and
  \<^verbatim>\<open>Shape.drawHit\<close> lie outside \<^verbatim>\<open>Container.ts\<close>). The matrix of
  \<^verbatim>\<open>getAbsoluteTransform(top).getMatrix()\<close> and its inverse are kept symbolic. A call on
  an undefined context raises a TypeError.
\<close>

datatype drawMethod = DrawScene | DrawHit

datatype matrix = AbsoluteTransform nat "nat option" | Inverted matrix

datatype ctxCall =
    Save
  | Restore
  | Transform matrix
  | BeginPath
  | RectPath "real option" "real option" "real option" "real option"
  | ClipFuncCall nat nat
  | Clip
  | ApplyGlobalCompositeOperation nat
  | DrawCachedSceneCanvas nat
  | DrawCachedHitCanvas nat

datatype event = OnContext nat ctxCall | ShapeDraw drawMethod nat "canvas option" "nat option"

type_synonym outcome = "error option \<times> event list"

definition emit :: "canvas option \<Rightarrow> ctxCall list \<Rightarrow> outcome" where
  "emit canvas calls =
     (case canvas of
        None \<Rightarrow> (Some TypeError, [])
      | Some c \<Rightarrow> (None, map (OnContext (cid c)) calls))"

definition skip :: outcome where
  "skip = (None, [])"

text \<open>Sequencing: an exception ends the draw with the calls made so far.\<close>

fun andThen :: "outcome \<Rightarrow> outcome \<Rightarrow> outcome" where
  "andThen (Some e, t) r = (Some e, t)"
| "andThen (None, t) (e, t') = (e, t @ t')"

text \<open>JavaScript truthiness of an optional number: \<^verbatim>\<open>undefined\<close> and 0 are falsy.\<close>

definition truthy :: "real option \<Rightarrow> bool" where
  "truthy v = (case v of None \<Rightarrow> False | Some r \<Rightarrow> r \<noteq> 0)"

text \<open>The three conditions of \<^verbatim>\<open>_drawChildren\<close> (lines 380, 382, 402-405).\<close>

definition hasClip :: "attrs \<Rightarrow> bool" where
  "hasClip a = ((truthy (clipWidth a) \<and> truthy (clipHeight a)) \<or> clipFunc a \<noteq> None)"

definition selfCache :: "attrs \<Rightarrow> nat option \<Rightarrow> bool" where
  "selfCache a tp = (tp = Some (nid a))"

definition hasComposition :: "drawMethod \<Rightarrow> attrs \<Rightarrow> nat option \<Rightarrow> bool" where
  "hasComposition drawMethod a tp =
     (\<not> selfCache a tp \<and> globalCompositeOperation a \<noteq> ''source-over'' \<and> drawMethod = DrawScene)"

text \<open>The calls of the clip block (lines 385-399).\<close>

definition clipCalls :: "attrs \<Rightarrow> nat option \<Rightarrow> ctxCall list" where
  "clipCalls a tp =
     [Save, Transform (AbsoluteTransform (nid a) tp), BeginPath] @
     (case clipFunc a of
        Some f \<Rightarrow> [ClipFuncCall f (nid a)]
      | None \<Rightarrow> [RectPath (clipX a) (clipY a) (clipWidth a) (clipHeight a)]) @
     [Clip, Transform (Inverted (AbsoluteTransform (nid a) tp))]"

text \<open>
  \<^verbatim>\<open>drawScene\<close> (lines 330-352), \<^verbatim>\<open>drawHit\<close> (lines 353-374), \<^verbatim>\<open>_drawChildren\<close>
  (lines 375-422) and its loop over the children, \<^verbatim>\<open>child[drawMethod](canvas, top)\<close>.
\<close>

function (sequential) drawScene :: "canvas option \<Rightarrow> nat option \<Rightarrow> node \<Rightarrow> outcome"
  and drawHit :: "canvas option \<Rightarrow> nat option \<Rightarrow> node \<Rightarrow> outcome"
  and drawChildren :: "drawMethod \<Rightarrow> canvas option \<Rightarrow> nat option \<Rightarrow> attrs \<Rightarrow> node list \<Rightarrow> outcome"
  and drawEach :: "drawMethod \<Rightarrow> canvas option \<Rightarrow> nat option \<Rightarrow> node list \<Rightarrow> outcome"
where
  "drawScene can tp (Shape a) = (None, [ShapeDraw DrawScene (nid a) can tp])"
| "drawScene can tp (Container a cs) =
     (let canvas = (case can of Some c \<Rightarrow> Some c | None \<Rightarrow> layerCanvas a);
          cachedSceneCanvas = (case canvasCache a of None \<Rightarrow> None | Some cc \<Rightarrow> scene cc);
          caching = (case canvas of None \<Rightarrow> False | Some c \<Rightarrow> isCache c)
      in if \<not> isVisible a \<and> \<not> caching then skip
         else case cachedSceneCanvas of
                Some bitmap \<Rightarrow>
                  emit canvas [Save, Transform (AbsoluteTransform (nid a) tp),
                               DrawCachedSceneCanvas bitmap, Restore]
              | None \<Rightarrow> drawChildren DrawScene canvas tp a cs)"
| "drawHit can tp (Shape a) = (None, [ShapeDraw DrawHit (nid a) can tp])"
| "drawHit can tp (Container a cs) =
     (if \<not> shouldDrawHit a tp then skip
      else
        let canvas = (case can of Some c \<Rightarrow> Some c | None \<Rightarrow> layerHitCanvas a);
            cachedHitCanvas = (case canvasCache a of None \<Rightarrow> None | Some cc \<Rightarrow> hit cc)
        in case cachedHitCanvas of
             Some bitmap \<Rightarrow>
               emit canvas [Save, Transform (AbsoluteTransform (nid a) tp),
                            DrawCachedHitCanvas bitmap, Restore]
           | None \<Rightarrow> drawChildren DrawHit canvas tp a cs)"
| "drawChildren drawMethod canvas tp a cs =
     andThen (if hasClip a then emit canvas (clipCalls a tp) else skip)
    (andThen (if hasComposition drawMethod a tp
              then emit canvas [Save, ApplyGlobalCompositeOperation (nid a)] else skip)
    (andThen (drawEach drawMethod canvas tp cs)
    (andThen (if hasComposition drawMethod a tp then emit canvas [Restore] else skip)
             (if hasClip a then emit canvas [Restore] else skip))))"
| "drawEach drawMethod canvas tp [] = skip"
| "drawEach drawMethod canvas tp (child # rest) =
     andThen (case drawMethod of
                DrawScene \<Rightarrow> drawScene canvas tp child
              | DrawHit \<Rightarrow> drawHit canvas tp child)
             (drawEach drawMethod canvas tp rest)"
  by pat_completeness auto
termination
  by (relation "measure (\<lambda>x. case x of
         Inl (Inl (can, tp, n)) \<Rightarrow> 3 * size n
       | Inl (Inr (can, tp, n)) \<Rightarrow> 3 * size n
       | Inr (Inl (m, can, tp, a, cs)) \<Rightarrow> 3 * size_list size cs + 2
       | Inr (Inr (m, can, tp, cs)) \<Rightarrow> 3 * size_list size cs + 1)") auto

text \<open>
  Modelled from the spec: the accessors that \<^verbatim>\<open>Factory.addComponentsGetterSetter\<close>
  generates for \<^verbatim>\<open>clip\<close> (lines 519-524) lie outside \<^verbatim>\<open>Container.ts\<close>. Sections 3 and 9: the clip
  region is a rectangle (x, y, width, height) held in explicit fields with a setter; the
  fields are the attributes \<^verbatim>\<open>clipX\<close>, \<^verbatim>\<open>clipY\<close>, \<^verbatim>\<open>clipWidth\<close> and \<^verbatim>\<open>clipHeight\<close> that
  \<^verbatim>\<open>_drawChildren\<close> reads.
\<close>

definition setClip :: "real \<times> real \<times> real \<times> real \<Rightarrow> attrs \<Rightarrow> attrs" where
  "setClip r a =
     (case r of (x, y, w, h) \<Rightarrow>
        a\<lparr>clipX := Some x, clipY := Some y, clipWidth := Some w, clipHeight := Some h\<rparr>)"

definition getClip :: "attrs \<Rightarrow> real option \<times> real option \<times> real option \<times> real option" where
  "getClip a = (clipX a, clipY a, clipWidth a, clipHeight a)"


subsection \<open>The client rectangle\<close>

text \<open>
  \<^verbatim>\<open>IRect\<close> has the fields x, y, width and height. The configuration of
  \<^verbatim>\<open>getClientRect\<close> has three optional flags (\<open>None\<close> is \<^verbatim>\<open>undefined\<close>) and the optional
  \<^verbatim>\<open>relativeTo\<close> container, named by its \<open>nid\<close>.
\<close>

record rect =
  rect_x :: real
  rect_y :: real
  width :: real
  height :: real

record config =
  skipTransform :: "bool option"
  skipShadow :: "bool option"
  skipStroke :: "bool option"
  relativeTo :: "nat option"

definition emptyConfig :: config where
  "emptyConfig = \<lparr>skipTransform = None, skipShadow = None, skipStroke = None, relativeTo = None\<rparr>"

definition zeroRect :: rect where
  "zeroRect = \<lparr>rect_x = 0, rect_y = 0, width = 0, height = 0\<rparr>"

text \<open>
  The collaborators of \<^verbatim>\<open>getClientRect\<close> defined outside \<^verbatim>\<open>Container.ts\<close>, as parameters:
  \<open>isMatch\<close> is \<^verbatim>\<open>Node._isMatch\<close>, \<open>shapeClientRect\<close> is \<^verbatim>\<open>Shape.getClientRect\<close>,
  \<open>isVisibleFrom\<close> is \<^verbatim>\<open>shape._isVisible(container)\<close>, and \<open>transformedRect\<close> is
  \<^verbatim>\<open>Node._transformedRect(rect, relativeTo)\<close>, which maps a local rectangle of a node by the
  node's absolute transform, up to the \<^verbatim>\<open>relativeTo\<close> container if one is given.
\<close>

record ext =
  isMatch :: "selector \<Rightarrow> node \<Rightarrow> bool"
  shapeClientRect :: "attrs \<Rightarrow> config \<Rightarrow> rect"
  isVisibleFrom :: "node \<Rightarrow> nat \<Rightarrow> bool"
  transformedRect :: "attrs \<Rightarrow> rect \<Rightarrow> nat option \<Rightarrow> rect"

text \<open>
  The running bounds \<^verbatim>\<open>minX, minY, maxX, maxY\<close> are \<^verbatim>\<open>undefined\<close> until the first
  rectangle is taken, and are then set together (lines 459-470).
\<close>

type_synonym bounds = "(real \<times> real \<times> real \<times> real) option"

definition expand :: "bounds \<Rightarrow> rect \<Rightarrow> bounds" where
  "expand b r =
     (case b of
        None \<Rightarrow> Some (rect_x r, rect_y r, rect_x r + width r, rect_y r + height r)
      | Some (minX, minY, maxX, maxY) \<Rightarrow>
          Some (min minX (rect_x r), min minY (rect_y r),
                max maxX (rect_x r + width r), max maxY (rect_y r + height r)))"

definition isTruthy :: "bool option \<Rightarrow> bool" where
  "isTruthy v = (v = Some True)"

text \<open>
  \<^verbatim>\<open>getClientRect\<close> (lines 424-503); \<open>eachChild\<close> is the \<^verbatim>\<open>forEach\<close> of lines 442-471 with
  the bounds as its state. A leaf answers with its own rectangle.
\<close>

function (sequential) getClientRect :: "ext \<Rightarrow> config \<Rightarrow> node \<Rightarrow> rect"
  and eachChild :: "ext \<Rightarrow> config \<Rightarrow> nat \<Rightarrow> node list \<Rightarrow> bounds \<Rightarrow> bounds"
where
  "getClientRect E config (Shape a) = shapeClientRect E a config"
| "getClientRect E config (Container a cs) =
     (let b = eachChild E config (nid a) cs None;
          shapes = find_nodes (isMatch E) (SelString ''Shape'') (Container a cs);
          hasVisible = list_ex (\<lambda>shape. isVisibleFrom E shape (nid a)) shapes;
          selfRect =
            (case b of
               Some (minX, minY, maxX, maxY) \<Rightarrow>
                 if hasVisible
                 then \<lparr>rect_x = minX, rect_y = minY, width = maxX - minX, height = maxY - minY\<rparr>
                 else zeroRect
             | None \<Rightarrow> zeroRect)
      in if \<not> isTruthy (skipTransform config)
         then transformedRect E a selfRect (relativeTo config)
         else selfRect)"
| "eachChild E config that [] b = b"
| "eachChild E config that (child # rest) b =
     (if \<not> visible (attrs_of child) then eachChild E config that rest b
      else
        let r = getClientRect E
                  \<lparr>skipTransform = None, skipShadow = skipShadow config,
                   skipStroke = skipStroke config, relativeTo = Some that\<rparr> child
        in if width r = 0 \<and> height r = 0 then eachChild E config that rest b
           else eachChild E config that rest (expand b r))"
  by pat_completeness auto
termination
  by (relation "measure (\<lambda>x. case x of
         Inl (E, config, n) \<Rightarrow> 2 * size n
       | Inr (E, config, that, cs, b) \<Rightarrow> 2 * size_list size cs + 1)") auto




subsection \<open>Example trees\<close>

text \<open>
  A node with default attributes: not cached, no layer, no clip, the default composite
  operation; the flag sets its own, its effective and its hit visibility.
\<close>

definition mkAttrs :: "nat \<Rightarrow> bool \<Rightarrow> attrs" where
  "mkAttrs i v =
     \<lparr>nid = i, visible = v, isVisible = v, shouldDrawHit = (\<lambda>_. v), canvasCache = None,
      cachedAttrs = [''absoluteTransform''], layerCanvas = None, layerHitCanvas = None,
      clipX = None, clipY = None, clipWidth = None, clipHeight = None, clipFunc = None,
      globalCompositeOperation = ''source-over''\<rparr>"

text \<open>An example matcher: the string \<^verbatim>\<open>Shape\<close> matches the leaves, a predicate the nodes
  it holds for.\<close>

fun isMatchEx :: "selector \<Rightarrow> node \<Rightarrow> bool" where
  "isMatchEx (SelString s) (Shape a) = (s = ''Shape'')"
| "isMatchEx (SelString s) (Container a cs) = False"
| "isMatchEx (SelFunction f) n = f n"

definition group1 :: node where
  "group1 = Container (mkAttrs 1 True) [Shape (mkAttrs 2 True), Shape (mkAttrs 3 True)]"

definition tree_ex :: node where
  "tree_ex = Container (mkAttrs 0 True) [group1, Shape (mkAttrs 4 True), Container (mkAttrs 5 True) []]"

text \<open>A group that holds both bitmaps, with one leaf; the same group not visible; an
  ordinary canvas.\<close>

definition cachedAttrsEx :: attrs where
  "cachedAttrsEx = (mkAttrs 1 True)\<lparr>canvasCache := Some \<lparr>scene = Some 7, hit = Some 8\<rparr>\<rparr>"

definition cachedGroup :: node where
  "cachedGroup = Container cachedAttrsEx [Shape (mkAttrs 2 True)]"

definition invisibleCached :: node where
  "invisibleCached =
     Container ((mkAttrs 1 False)\<lparr>canvasCache := Some \<lparr>scene = Some 7, hit = Some 8\<rparr>\<rparr>)
       [Shape (mkAttrs 2 True)]"

definition screen :: canvas where
  "screen = \<lparr>cid = 0, isCache = False\<rparr>"

text \<open>A container with the composite operation \<^verbatim>\<open>xor\<close>, and the same with the clip
  rectangle (20, 20, 20, 20).\<close>

definition xorAttrs :: attrs where
  "xorAttrs = (mkAttrs 1 True)\<lparr>globalCompositeOperation := ''xor''\<rparr>"

definition clippedAttrs :: attrs where
  "clippedAttrs = setClip (20, 20, 20, 20) xorAttrs"

text \<open>Example collaborators: leaf 2 answers with the rectangle (0, 0, 10, 10), every other
  leaf with (5, 5, 10, 10); a leaf is visible from a container when its own flag is set;
  no node is transformed. In \<open>extAt dx dy\<close> the container that is asked sits at
  \<open>(dx, dy)\<close>: its absolute transform is that translation.\<close>

definition extEx :: ext where
  "extEx =
     \<lparr>isMatch = isMatchEx,
      shapeClientRect = (\<lambda>a config. if nid a = 2
         then \<lparr>rect_x = 0, rect_y = 0, width = 10, height = 10\<rparr>
         else \<lparr>rect_x = 5, rect_y = 5, width = 10, height = 10\<rparr>),
      isVisibleFrom = (\<lambda>n c. visible (attrs_of n)),
      transformedRect = (\<lambda>a r relTo. r)\<rparr>"

definition extAt :: "real \<Rightarrow> real \<Rightarrow> ext" where
  "extAt dx dy =
     extEx\<lparr>transformedRect := (\<lambda>a r relTo.
        case relTo of
          None \<Rightarrow> r\<lparr>rect_x := rect_x r + dx, rect_y := rect_y r + dy\<rparr>
        | Some t \<Rightarrow> r)\<rparr>"




definition hiddenGroup :: node where
  "hiddenGroup = Container (mkAttrs 1 True) [Shape (mkAttrs 2 False), Shape (mkAttrs 3 False)]"

definition skipping :: config where
  "skipping = emptyConfig\<lparr>skipTransform := Some True\<rparr>"


section \<open>The index invariant\<close>

lemma I1_at_iff:
  "I1_at h c \<longleftrightarrow>
     (\<forall>i<length (children (h c)).
        parent (h (children (h c) ! i)) = Some c \<and> index (h (children (h c) ! i)) = i)"
  by (simp add: I1_at_def list_all_length nth_enumerate_eq)

lemma I1_at_distinct:
  assumes "I1_at h c"
  shows "distinct (children (h c))"
proof -
  have "\<forall>i<length (children (h c)). \<forall>j<length (children (h c)).
          children (h c) ! i = children (h c) ! j \<longrightarrow> i = j"
    using assms unfolding I1_at_iff by metis
  then show ?thesis by (simp add: distinct_conv_nth) blast
qed

lemma I1_at_parent:
  "I1_at h c \<Longrightarrow> x \<in> set (children (h c)) \<Longrightarrow> parent (h x) = Some c"
  unfolding I1_at_iff by (auto simp: in_set_conv_nth)

lemma foldl_setIndex_parent [simp]: "parent (foldl setIndex h ps k) = parent (h k)"
  by (induction ps arbitrary: h) (auto simp: setIndex_def)

lemma foldl_setIndex_children [simp]: "children (foldl setIndex h ps k) = children (h k)"
  by (induction ps arbitrary: h) (auto simp: setIndex_def)

lemma foldl_setIndex_other:
  "k \<notin> snd ` set ps \<Longrightarrow> index (foldl setIndex h ps k) = index (h k)"
  by (induction ps arbitrary: h) (auto simp: setIndex_def)

lemma foldl_setIndex_nth:
  "distinct cs \<Longrightarrow> i < length cs \<Longrightarrow>
     index (foldl setIndex h (enumerate n cs) (cs ! i)) = n + i"
proof (induction cs arbitrary: h n i)
  case Nil
  then show ?case by simp
next
  case (Cons a cs)
  show ?case
  proof (cases i)
    case 0
    have "a \<notin> snd ` set (enumerate (Suc n) cs)"
      using Cons.prems(1) by (auto simp: in_set_enumerate_eq)
    then show ?thesis
      using 0 by (simp add: foldl_setIndex_other) (simp add: setIndex_def)
  next
    case (Suc j)
    then show ?thesis
      using Cons.prems Cons.IH [of j "setIndex h (n, a)" "Suc n"] by simp
  qed
qed

lemma setChildrenIndices_parent [simp]: "parent (setChildrenIndices h c k) = parent (h k)"
  by (simp add: setChildrenIndices_def)

lemma setChildrenIndices_children [simp]: "children (setChildrenIndices h c k) = children (h k)"
  by (simp add: setChildrenIndices_def)

lemma setChildrenIndices_other:
  assumes "k \<notin> set (children (h c))"
  shows "index (setChildrenIndices h c k) = index (h k)"
proof -
  have "k \<notin> snd ` set (enumerate 0 (children (h c)))"
    using assms by (auto simp: in_set_enumerate_eq)
  then show ?thesis
    unfolding setChildrenIndices_def by (rule foldl_setIndex_other)
qed

lemma setChildrenIndices_nth:
  "distinct (children (h c)) \<Longrightarrow> i < length (children (h c)) \<Longrightarrow>
     index (setChildrenIndices h c (children (h c) ! i)) = i"
  using foldl_setIndex_nth [of "children (h c)" i h 0] by (simp add: setChildrenIndices_def)


lemma remove_node_noparent: "parent (h k) = None \<Longrightarrow> remove_node h k = h"
  by (simp add: remove_node_def)

lemma remove_node_parent_self [simp]: "parent (remove_node h k k) = None"
  by (simp add: remove_node_def Let_def split: option.splits)

lemma remove_node_children:
  "parent (h k) = Some p \<Longrightarrow>
     children (remove_node h k c) = (if c = p then remove1 k (children (h p)) else children (h c))"
  by (simp add: remove_node_def Let_def)

lemma remove_node_children_subset: "set (children (remove_node h k c)) \<subseteq> set (children (h c))"
  by (cases "parent (h k)") (auto simp: remove_node_noparent remove_node_children dest: set_remove1_subset [THEN subsetD])

lemma remove_node_parent_other:
  "x \<noteq> k \<Longrightarrow> parent (remove_node h k x) = parent (h x)"
  by (simp add: remove_node_def Let_def split: option.splits)

lemma I1_remove_node:
  assumes "I1 h"
  shows "I1 (remove_node h k)"
proof (cases "parent (h k)")
  case None
  then show ?thesis using assms by (simp add: remove_node_noparent)
next
  case (Some p)
  define cs where "cs = remove1 k (children (h p))"
  define h1 where "h1 = h(p := (h p)\<lparr>children := cs\<rparr>)"
  define h2 where "h2 = setChildrenIndices h1 p"
  have rem: "remove_node h k = h2(k := (h2 k)\<lparr>parent := None, index := 0\<rparr>)"
    using Some by (simp add: remove_node_def Let_def h2_def h1_def cs_def)
  have inv: "\<And>c. I1_at h c" using assms by (simp add: I1_def)
  have dist: "distinct (children (h p))" using inv by (rule I1_at_distinct)
  have h1p: "children (h1 p) = cs" by (simp add: h1_def)
  have dcs: "distinct cs" using dist by (simp add: cs_def)
  have knot: "k \<notin> set cs" using dist by (simp add: cs_def)
  have sub: "set cs \<subseteq> set (children (h p))" unfolding cs_def by (rule set_remove1_subset)
  have par1: "\<And>x. parent (h1 x) = parent (h x)" by (simp add: h1_def)
  have idx1: "\<And>x. index (h1 x) = index (h x)" by (simp add: h1_def)
  have "I1_at (remove_node h k) c" for c
  proof (cases "c = p")
    case True
    have ch: "children (remove_node h k c) = cs"
      using Some True by (simp add: remove_node_children cs_def)
    have "parent (remove_node h k (cs ! i)) = Some p \<and> index (remove_node h k (cs ! i)) = i"
      if "i < length cs" for i
    proof -
      have mem: "cs ! i \<in> set cs" using that by simp
      then have ne: "cs ! i \<noteq> k" using knot by auto
      have "parent (h (cs ! i)) = Some p" using mem sub inv I1_at_parent by blast
      moreover have "index (h2 (cs ! i)) = i"
        using setChildrenIndices_nth [of h1 p i] dcs that by (simp add: h2_def h1p)
      ultimately show ?thesis using ne by (simp add: rem h2_def par1)
    qed
    then show ?thesis unfolding I1_at_iff ch using True by simp
  next
    case False
    have ch: "children (remove_node h k c) = children (h c)"
      using Some False by (simp add: remove_node_children)
    have "parent (remove_node h k x) = Some c \<and> index (remove_node h k x) = i"
      if "i < length (children (h c))" and "x = children (h c) ! i" for i x
    proof -
      have mem: "x \<in> set (children (h c))" using that by simp
      have px: "parent (h x) = Some c" and ix: "index (h x) = i"
        using inv [of c] that unfolding I1_at_iff by auto
      have ne: "x \<noteq> k" using px Some False by auto
      have "x \<notin> set (children (h p))" using px False inv I1_at_parent by fastforce
      then have "x \<notin> set (children (h1 p))" using sub by (auto simp: h1p)
      then have "index (h2 x) = index (h1 x)" unfolding h2_def by (rule setChildrenIndices_other)
      then show ?thesis using ne px ix by (simp add: rem h2_def par1 idx1)
    qed
    then show ?thesis unfolding I1_at_iff ch by simp
  qed
  then show ?thesis by (simp add: I1_def)
qed


lemma attach_children:
  "children (attach h c k d) = (if d = c then children (h c) @ [k] else children (h d))"
  by (simp add: attach_def Let_def getChildren_def)

lemma attach_parent:
  "parent (attach h c k x) = (if x = k then Some c else parent (h x))"
  by (simp add: attach_def Let_def getChildren_def)

lemma attach_index:
  "index (attach h c k x) = (if x = k then length (children (h c)) else index (h x))"
  by (simp add: attach_def Let_def getChildren_def)

lemma I1_attach:
  assumes "I1 h" and "parent (h k) = None"
  shows "I1 (attach h c k)"
proof -
  have inv: "\<And>d. I1_at h d" using assms(1) by (simp add: I1_def)
  have notin: "k \<notin> set (children (h d))" for d
    using I1_at_parent [OF inv, of k d] assms(2) by auto
  have "I1_at (attach h c k) d" for d
    unfolding I1_at_iff
  proof (intro allI impI)
    fix i assume i: "i < length (children (attach h c k d))"
    let ?x = "children (attach h c k d) ! i"
    show "parent (attach h c k ?x) = Some d \<and> index (attach h c k ?x) = i"
    proof (cases "d = c \<and> i = length (children (h c))")
      case True
      then show ?thesis by (simp add: attach_children attach_parent attach_index)
    next
      case False
      then have il: "i < length (children (h d))" and x: "?x = children (h d) ! i"
        using i by (auto simp: attach_children nth_append split: if_splits)
      then have "?x \<noteq> k" using notin [of d] by (metis nth_mem)
      then show ?thesis
        using inv [of d] il x unfolding I1_at_iff by (simp add: attach_parent attach_index)
    qed
  qed
  then show ?thesis by (simp add: I1_def)
qed

lemma I1_addNew: "I1 h \<Longrightarrow> parent (h k) = None \<Longrightarrow> I1 (snd (addNew va c k h))"
  by (simp add: addNew_def I1_attach)

lemma I1_moveTo: "I1 h \<Longrightarrow> I1 (snd (moveTo va h k c))"
  by (simp add: moveTo_def I1_addNew I1_remove_node)

lemma I1_add1: "I1 h \<Longrightarrow> I1 (snd (add1 va c k h))"
  by (auto simp: add1_def getParent_def I1_moveTo I1_addNew split: option.splits)

lemma I1_addEach: "I1 h \<Longrightarrow> I1 (snd (addEach va c ks h))"
proof (induction ks arbitrary: h)
  case Nil
  then show ?case by simp
next
  case (Cons k ks)
  obtain e h' where r: "add1 va c k h = (e, h')" by (cases "add1 va c k h")
  have "I1 h'" using I1_add1 [OF Cons.prems, of va c k] r by simp
  then show ?case using Cons.IH [of h'] r by (cases e) auto
qed

lemma I1_add: "I1 h \<Longrightarrow> I1 (snd (add va c ks h))"
  by (auto simp: add_def I1_addEach I1_add1 split: list.splits)

lemma resetChild_eq:
  "resetChild k h = h(k := (h k)\<lparr>parent := None, index := 0\<rparr>)"
  by (simp add: resetChild_def Let_def remove_node_noparent)

lemma fold_resetChild_children [simp]: "children (fold resetChild ks h d) = children (h d)"
  by (induction ks arbitrary: h) (auto simp: resetChild_eq)

lemma fold_resetChild_other:
  "x \<notin> set ks \<Longrightarrow> fold resetChild ks h x = h x"
  by (induction ks arbitrary: h) (auto simp: resetChild_eq)

lemma I1_removeChildren:
  assumes "I1 h"
  shows "I1 (removeChildren h c)"
proof -
  have inv: "\<And>d. I1_at h d" using assms by (simp add: I1_def)
  have "I1_at (removeChildren h c) d" for d
  proof (cases "d = c")
    case True
    then show ?thesis by (simp add: I1_at_def removeChildren_def Let_def)
  next
    case False
    have ch: "children (removeChildren h c d) = children (h d)"
      using False by (simp add: removeChildren_def Let_def)
    have "parent (removeChildren h c x) = Some d \<and> index (removeChildren h c x) = i"
      if "i < length (children (h d))" and "x = children (h d) ! i" for i x
    proof -
      have px: "parent (h x) = Some d" and ix: "index (h x) = i"
        using inv [of d] that unfolding I1_at_iff by auto
      have "x \<notin> set (children (h c))" using px False inv I1_at_parent by fastforce
      then have same: "fold resetChild (children (h c)) h x = h x"
        by (rule fold_resetChild_other)
      show ?thesis
      proof (cases "x = c")
        case True
        then show ?thesis using same px ix
          by (simp add: removeChildren_def Let_def getChildren_def)
      next
        case False
        then show ?thesis using same px ix
          by (simp add: removeChildren_def Let_def getChildren_def)
      qed
    qed
    then show ?thesis unfolding I1_at_iff ch by simp
  qed
  then show ?thesis by (simp add: I1_def)
qed

lemma I1_exec_op: "I1 h \<Longrightarrow> I1 (snd (exec_op va x h))"
  by (cases x) (simp_all add: I1_add I1_remove_node I1_removeChildren)

lemma I1_fresh: "I1 fresh"
  by (simp add: I1_def I1_at_def fresh_def)

lemma I1_run_ops: "I1 h \<Longrightarrow> I1 (run_ops va ops h)"
  by (induction ops arbitrary: h) (simp_all add: I1_exec_op)

text \<open>
  C1. For every container and every sequence of add and remove operations (\<^verbatim>\<open>add\<close>,
  \<^verbatim>\<open>remove\<close>, \<^verbatim>\<open>removeChildren\<close>), after each operation of the sequence every child at
  position \<open>i\<close> of the container's children has the container as its parent and \<open>i\<close> as its
  index: invariant I1 holds in the store after every prefix of the sequence, also after an
  operation that raised.
\<close>

theorem index_invariant_preserved:
  "I1 h \<Longrightarrow> I1 (run_ops va (take n ops) h)"
  by (rule I1_run_ops)

theorem index_invariant_preserved_witness:
  "I1 fresh \<and>
   I1 (run_ops (\<lambda>_ _. True) (take 3 [Add 1 [2, 3, 4], Remove 3, Add 5 [4], Add 1 [6]]) fresh)"
  using index_invariant_preserved
    [of fresh "\<lambda>_ _. True" 3 "[Add 1 [2, 3, 4], Remove 3, Add 5 [4], Add 1 [6]]"]
  by (simp add: I1_fresh)


section \<open>Relocation\<close>












section \<open>Search\<close>

lemma descendants_Container:
  "descendants fn (Container a cs # rest) s =
     (case fn (Container a cs) s of
        (True, s1) \<Rightarrow> (True, s1)
      | (False, s1) \<Rightarrow>
          (case descendants fn cs s1 of
             (True, s2) \<Rightarrow> (True, s2)
           | (False, s2) \<Rightarrow> descendants fn rest s2))"
  by (cases cs) (auto simp: hasChildren_def split: prod.splits bool.splits)

lemma find_append:
  "List.find P (xs @ ys) = (case List.find P xs of None \<Rightarrow> List.find P ys | Some x \<Rightarrow> Some x)"
  by (induction xs) auto

lemma takeWhile_append_find:
  "takeWhile (\<lambda>n. \<not> P n) (xs @ ys) =
     (case List.find P xs of
        None \<Rightarrow> xs @ takeWhile (\<lambda>n. \<not> P n) ys
      | Some x \<Rightarrow> takeWhile (\<lambda>n. \<not> P n) xs)"
  by (induction xs) (auto split: option.splits)

lemma findCallback_simps:
  "findCallback m sel fo n acc =
     (m sel n \<and> fo, if m sel n then acc @ [n] else acc)"
  by (simp add: findCallback_def Let_def)

lemma descendants_find_all:
  "descendants (findCallback m sel False) cs acc =
     (False, acc @ filter (m sel) (preorder cs))"
proof (induction cs arbitrary: acc rule: preorder.induct)
  case 1
  then show ?case by simp
next
  case (2 a rest)
  then show ?case by (simp add: findCallback_simps)
next
  case (3 a cs rest)
  then show ?case by (simp add: descendants_Container findCallback_simps del: descendants.simps(3))
qed

lemma descendants_find_one:
  "descendants (findCallback m sel True) cs acc =
     (case List.find (m sel) (preorder cs) of
        None \<Rightarrow> (False, acc)
      | Some x \<Rightarrow> (True, acc @ [x]))"
proof (induction cs arbitrary: acc rule: preorder.induct)
  case 1
  then show ?case by simp
next
  case (2 a rest)
  then show ?case by (simp add: findCallback_simps)
next
  case (3 a cs rest)
  then show ?case
    by (simp add: descendants_Container findCallback_simps find_append
        del: descendants.simps(3) split: option.splits)
qed

lemma traced_findCallback:
  "traced (findCallback m sel fo) n (acc, tr) =
     (m sel n \<and> fo, (if m sel n then acc @ [n] else acc, tr @ [n]))"
  by (simp add: traced_def findCallback_simps)

lemma descendants_traced_all:
  "descendants (traced (findCallback m sel False)) cs (acc, tr) =
     (False, (acc @ filter (m sel) (preorder cs), tr @ preorder cs))"
proof (induction cs arbitrary: acc tr rule: preorder.induct)
  case 1
  then show ?case by simp
next
  case (2 a rest)
  then show ?case by (simp add: traced_findCallback)
next
  case (3 a cs rest)
  then show ?case by (simp add: descendants_Container traced_findCallback del: descendants.simps(3))
qed

lemma descendants_traced_one:
  "descendants (traced (findCallback m sel True)) cs (acc, tr) =
     (case List.find (m sel) (preorder cs) of
        None \<Rightarrow> (False, (acc, tr @ preorder cs))
      | Some x \<Rightarrow> (True, (acc @ [x], tr @ takeWhile (\<lambda>n. \<not> m sel n) (preorder cs) @ [x])))"
proof (induction cs arbitrary: acc tr rule: preorder.induct)
  case 1
  then show ?case by simp
next
  case (2 a rest)
  then show ?case by (simp add: traced_findCallback split: option.splits)
next
  case (3 a cs rest)
  then show ?case
    by (simp add: descendants_Container traced_findCallback find_append takeWhile_append_find
        del: descendants.simps(3) split: option.splits)
qed

lemma find_hd_filter:
  "filter P xs \<noteq> [] \<Longrightarrow> List.find P xs = Some (hd (filter P xs))"
  by (induction xs) auto

lemma find_None_filter: "List.find P xs = None \<longleftrightarrow> filter P xs = []"
  by (induction xs) auto

text \<open>
  C3. For every tree and every selector, string or predicate, that matches at least one
  descendant of the container, \<^verbatim>\<open>find\<close> returns exactly the matching descendants in
  pre-order (children in sequence order, each subtree before the next sibling) and calls
  the matcher on every descendant in that order; \<^verbatim>\<open>findOne\<close> returns the first of them,
  and its traversal visits the descendants before the first match and the first match,
  and no node after it.
\<close>

theorem find_preorder:
  assumes "filter (m sel) (preorder (getChildren_of c)) \<noteq> []"
  shows "find_nodes m sel c = filter (m sel) (preorder (getChildren_of c))
       \<and> visited m sel False c = preorder (getChildren_of c)
       \<and> findOne m sel c = Some (hd (filter (m sel) (preorder (getChildren_of c))))
       \<and> visited m sel True c =
           takeWhile (\<lambda>n. \<not> m sel n) (preorder (getChildren_of c))
           @ [hd (filter (m sel) (preorder (getChildren_of c)))]"
  using find_hd_filter [OF assms]
  by (simp add: find_nodes_def findOne_def generalFind_def visited_def Let_def
      descendants_find_all descendants_find_one descendants_traced_all descendants_traced_one)

theorem find_preorder_witness:
  "filter (isMatchEx (SelString ''Shape'')) (preorder (getChildren_of tree_ex)) \<noteq> []
   \<and> find_nodes isMatchEx (SelString ''Shape'') tree_ex
       = [Shape (mkAttrs 2 True), Shape (mkAttrs 3 True), Shape (mkAttrs 4 True)]
   \<and> findOne isMatchEx (SelString ''Shape'') tree_ex = Some (Shape (mkAttrs 2 True))
   \<and> visited isMatchEx (SelString ''Shape'') True tree_ex = [group1, Shape (mkAttrs 2 True)]"
proof -
  have pre: "preorder (getChildren_of tree_ex) =
      [group1, Shape (mkAttrs 2 True), Shape (mkAttrs 3 True), Shape (mkAttrs 4 True),
       Container (mkAttrs 5 True) []]"
    by (simp add: tree_ex_def group1_def)
  have ne: "filter (isMatchEx (SelString ''Shape'')) (preorder (getChildren_of tree_ex)) \<noteq> []"
    by (simp add: pre group1_def)
  show ?thesis
    using find_preorder [of isMatchEx "SelString ''Shape''" tree_ex, OF ne] ne by (simp add: pre) (simp add: group1_def)
qed

text \<open>
  C10. For every container and every selector that matches no descendant of the
  container, \<^verbatim>\<open>findOne\<close> returns \<^verbatim>\<open>undefined\<close> (and raises nothing: the search has no
  error result) and \<^verbatim>\<open>find\<close> returns the empty array.
\<close>

theorem find_no_match:
  assumes "\<forall>n \<in> set (preorder (getChildren_of c)). \<not> m sel n"
  shows "findOne m sel c = None \<and> find_nodes m sel c = []"
proof -
  have "filter (m sel) (preorder (getChildren_of c)) = []"
    using assms by (simp add: filter_empty_conv)
  then show ?thesis
    using find_None_filter [of "m sel" "preorder (getChildren_of c)"]
    by (simp add: find_nodes_def findOne_def generalFind_def Let_def
        descendants_find_all descendants_find_one)
qed


theorem find_no_match_witness:
  "list_all (\<lambda>n. \<not> isMatchEx (SelString ''Layer'') n) (preorder (getChildren_of tree_ex))
   \<and> findOne isMatchEx (SelString ''Layer'') tree_ex = None
   \<and> find_nodes isMatchEx (SelString ''Layer'') tree_ex = []"
proof -
  have h: "\<forall>n \<in> set (preorder (getChildren_of tree_ex)). \<not> isMatchEx (SelString ''Layer'') n"
    by (simp add: tree_ex_def group1_def)
  show ?thesis
    using find_no_match [of tree_ex isMatchEx "SelString ''Layer''", OF h] h
    by (simp add: list_all_iff)
qed


section \<open>Cache invalidation\<close>

lemma clear_attrs [simp]:
  "attrs_of (clearSelfAndDescendantCache base attr t) = base attr (attrs_of t)"
  by (cases t) (simp_all add: Let_def)

lemma list_all2_same_refl: "(\<And>x. P x x) \<Longrightarrow> list_all2 P xs xs"
  by (simp add: list_all2_same)

lemma clear_aligned:
  "list_all2
     (\<lambda>n n'. (n' = n \<or> attrs_of n' = base attr (attrs_of n))
           \<and> (isCached (attrs_of n') \<longrightarrow> getChildren_of n' = getChildren_of n))
     (preorder cs) (preorder (map (clearSelfAndDescendantCache base attr) cs))"
proof (induction cs rule: preorder.induct)
  case 1
  then show ?case by simp
next
  case (2 a rest)
  then show ?case by simp
next
  case (3 a cs rest)
  show ?case
  proof (cases "isCached (base attr a)")
    case True
    then show ?thesis
      using 3 by (simp add: Let_def list_all2_appendI list_all2_same_refl)
  next
    case False
    then show ?thesis
      using 3 by (simp add: Let_def list_all2_appendI)
  qed
qed

lemma clear_uncached:
  "\<forall>n \<in> set (preorder cs). \<not> isCached (base attr (attrs_of n)) \<Longrightarrow>
     map attrs_of (preorder (map (clearSelfAndDescendantCache base attr) cs))
       = map (\<lambda>n. base attr (attrs_of n)) (preorder cs)"
  by (induction cs rule: preorder.induct) (simp_all add: Let_def)

text \<open>
  C5, as amended. The walk runs the base method on the node and reads \<^verbatim>\<open>isCached()\<close>
  after it. For every base method, attribute and tree: the node itself is cleared by the
  base method; node by node the tree after the walk matches the tree before it, each node
  either cleared by the base method or left exactly as it was, and every node that holds a
  cache bitmap after the walk has the children it had before, untouched, so the walk
  never descends below a node that still holds a bitmap; in a tree where no node holds a
  bitmap after its base clear, every descendant, leaves included, is cleared; a container
  that holds a bitmap after its base clear keeps its children as they are, one that holds
  none has every child walked; and for a container without a bitmap and with a child that
  keeps its bitmap, the walk clears the container and the child by the base method, leaves
  the child's children alone, and goes on through the child's siblings.
\<close>

theorem cache_walk_opaque:
  "attrs_of (clearSelfAndDescendantCache base attr t) = base attr (attrs_of t)
   \<and> list_all2
        (\<lambda>n n'. (n' = n \<or> attrs_of n' = base attr (attrs_of n))
              \<and> (isCached (attrs_of n') \<longrightarrow> getChildren_of n' = getChildren_of n))
        (preorder [t]) (preorder [clearSelfAndDescendantCache base attr t])
   \<and> ((\<forall>n \<in> set (preorder [t]). \<not> isCached (base attr (attrs_of n))) \<longrightarrow>
        map attrs_of (preorder [clearSelfAndDescendantCache base attr t])
          = map (\<lambda>n. base attr (attrs_of n)) (preorder [t]))
   \<and> (isCached (base attr a) \<longrightarrow>
        clearSelfAndDescendantCache base attr (Container a cs) = Container (base attr a) cs)
   \<and> (\<not> isCached (base attr a) \<longrightarrow>
        clearSelfAndDescendantCache base attr (Container a cs)
          = Container (base attr a) (map (clearSelfAndDescendantCache base attr) cs))
   \<and> (\<not> isCached (base attr a) \<and> isCached (base attr d) \<longrightarrow>
        clearSelfAndDescendantCache base attr (Container a (xs @ Container d ds # ys))
          = Container (base attr a)
              (map (clearSelfAndDescendantCache base attr) xs
               @ Container (base attr d) ds
               # map (clearSelfAndDescendantCache base attr) ys))"
  using clear_aligned [of base attr "[t]"] clear_uncached [of "[t]" base attr]
  by (simp add: Let_def del: clearSelfAndDescendantCache.simps)
     (simp add: Let_def)

theorem cache_walk_opaque_witness:
  "\<not> isCached (Node_clearSelfAndDescendantCache (Some ''absoluteTransform'') (mkAttrs 0 True))
   \<and> isCached (Node_clearSelfAndDescendantCache (Some ''absoluteTransform'') cachedAttrsEx)
   \<and> clearSelfAndDescendantCache Node_clearSelfAndDescendantCache (Some ''absoluteTransform'')
        (Container (mkAttrs 0 True) [cachedGroup, Shape (mkAttrs 3 True)])
       = Container ((mkAttrs 0 True)\<lparr>cachedAttrs := []\<rparr>)
           [Container (cachedAttrsEx\<lparr>cachedAttrs := []\<rparr>) [Shape (mkAttrs 2 True)],
            Shape ((mkAttrs 3 True)\<lparr>cachedAttrs := []\<rparr>)]
   \<and> canvasCache (cachedAttrsEx\<lparr>cachedAttrs := []\<rparr>) = Some \<lparr>scene = Some 7, hit = Some 8\<rparr>"
proof -
  let ?B = "Node_clearSelfAndDescendantCache (Some ''absoluteTransform'')"
  have n: "\<not> isCached (?B (mkAttrs 0 True))"
    and c: "isCached (?B cachedAttrsEx)"
    and b: "?B (mkAttrs 0 True) = (mkAttrs 0 True)\<lparr>cachedAttrs := []\<rparr>"
      "?B cachedAttrsEx = cachedAttrsEx\<lparr>cachedAttrs := []\<rparr>"
      "?B (mkAttrs 3 True) = (mkAttrs 3 True)\<lparr>cachedAttrs := []\<rparr>"
    and k: "canvasCache (cachedAttrsEx\<lparr>cachedAttrs := []\<rparr>) = Some \<lparr>scene = Some 7, hit = Some 8\<rparr>"
    by (simp_all add: Node_clearSelfAndDescendantCache_def isCached_def cachedAttrsEx_def
        mkAttrs_def)
  from cache_walk_opaque [where base = Node_clearSelfAndDescendantCache
      and attr = "Some ''absoluteTransform''" and a = "mkAttrs 0 True" and d = cachedAttrsEx
      and xs = "[]" and ds = "[Shape (mkAttrs 2 True)]" and ys = "[Shape (mkAttrs 3 True)]"] n c
  have "clearSelfAndDescendantCache Node_clearSelfAndDescendantCache (Some ''absoluteTransform'')
          (Container (mkAttrs 0 True) ([] @ Container cachedAttrsEx [Shape (mkAttrs 2 True)]
             # [Shape (mkAttrs 3 True)]))
        = Container (?B (mkAttrs 0 True))
            (map (clearSelfAndDescendantCache Node_clearSelfAndDescendantCache
                    (Some ''absoluteTransform'')) []
             @ Container (?B cachedAttrsEx) [Shape (mkAttrs 2 True)]
             # map (clearSelfAndDescendantCache Node_clearSelfAndDescendantCache
                    (Some ''absoluteTransform'')) [Shape (mkAttrs 3 True)])"
    by blast
  then have "clearSelfAndDescendantCache Node_clearSelfAndDescendantCache (Some ''absoluteTransform'')
        (Container (mkAttrs 0 True) [cachedGroup, Shape (mkAttrs 3 True)])
       = Container ((mkAttrs 0 True)\<lparr>cachedAttrs := []\<rparr>)
           [Container (cachedAttrsEx\<lparr>cachedAttrs := []\<rparr>) [Shape (mkAttrs 2 True)],
            Shape ((mkAttrs 3 True)\<lparr>cachedAttrs := []\<rparr>)]"
    by (simp add: cachedGroup_def b del: clearSelfAndDescendantCache.simps(2))
  then show ?thesis using n c k by blast
qed

text \<open>
  C5 as stated fails for the call that names no attribute: the group holds a cache bitmap
  when the walk arrives, the base clear drops it, and the walk descends into the group and
  clears its leaf; the group's bitmap is gone.
\<close>

theorem cache_walk_descends_counterexample:
  "isCached (attrs_of cachedGroup)
   \<and> clearSelfAndDescendantCache Node_clearSelfAndDescendantCache None
        (Container (mkAttrs 0 True) [cachedGroup])
       = Container ((mkAttrs 0 True)\<lparr>cachedAttrs := []\<rparr>)
           [Container (cachedAttrsEx\<lparr>canvasCache := None, cachedAttrs := []\<rparr>)
              [Shape ((mkAttrs 2 True)\<lparr>cachedAttrs := []\<rparr>)]]"
  by (simp add: cachedGroup_def cachedAttrsEx_def mkAttrs_def isCached_def
      Node_clearSelfAndDescendantCache_def)


section \<open>Drawing\<close>

lemma andThen_skip_left [simp]: "andThen skip r = r"
  by (cases r) (simp add: skip_def)

lemma andThen_skip_right [simp]: "andThen r skip = r"
  by (cases r; cases "fst r") (auto simp: skip_def)

lemma andThen_emit:
  "andThen (emit (Some c) xs) r = (fst r, map (OnContext (cid c)) xs @ snd r)"
  by (cases r) (simp add: emit_def)

lemma andThen_ok: "andThen (None, t) r = (fst r, t @ snd r)"
  by (cases r) simp

text \<open>
  C4, as amended. For every container that passes the gate of the pass (scene: it is
  visible or the canvas is a cache canvas; hit: \<^verbatim>\<open>shouldDrawHit(top)\<close> holds), that has a
  canvas to draw on (the one supplied or its layer's) and that holds a cached bitmap for
  the pass, the draw call makes exactly four calls on the context, save, transform by the
  absolute transform relative to \<^verbatim>\<open>top\<close>, blit of the cached bitmap, restore, whatever
  its children are: nothing is drawn for a child.
\<close>

theorem cached_draw_replays:
  "((isVisible a \<or> isCache c) \<and> (can = Some c \<or> can = None \<and> layerCanvas a = Some c)
      \<and> canvasCache a = Some cc \<and> scene cc = Some bitmap
     \<longrightarrow> drawScene can tp (Container a cs)
          = (None, map (OnContext (cid c))
               [Save, Transform (AbsoluteTransform (nid a) tp),
                DrawCachedSceneCanvas bitmap, Restore]))
   \<and> (shouldDrawHit a tp \<and> (can = Some c \<or> can = None \<and> layerHitCanvas a = Some c)
      \<and> canvasCache a = Some cc \<and> hit cc = Some bitmap
     \<longrightarrow> drawHit can tp (Container a cs)
          = (None, map (OnContext (cid c))
               [Save, Transform (AbsoluteTransform (nid a) tp),
                DrawCachedHitCanvas bitmap, Restore]))"
  by (auto simp: emit_def Let_def)

theorem cached_draw_replays_witness:
  "isVisible cachedAttrsEx \<and> shouldDrawHit cachedAttrsEx None
   \<and> canvasCache cachedAttrsEx = Some \<lparr>scene = Some 7, hit = Some 8\<rparr>
   \<and> drawScene (Some screen) None cachedGroup
       = (None, [OnContext 0 Save, OnContext 0 (Transform (AbsoluteTransform 1 None)),
                 OnContext 0 (DrawCachedSceneCanvas 7), OnContext 0 Restore])
   \<and> drawHit (Some screen) None cachedGroup
       = (None, [OnContext 0 Save, OnContext 0 (Transform (AbsoluteTransform 1 None)),
                 OnContext 0 (DrawCachedHitCanvas 8), OnContext 0 Restore])"
proof -
  have v: "isVisible cachedAttrsEx" and s: "shouldDrawHit cachedAttrsEx None"
    and cc: "canvasCache cachedAttrsEx = Some \<lparr>scene = Some 7, hit = Some 8\<rparr>"
    and i: "nid cachedAttrsEx = 1"
    by (simp_all add: cachedAttrsEx_def mkAttrs_def)
  note r = cached_draw_replays [where a = cachedAttrsEx and c = screen and can = "Some screen"
      and cc = "\<lparr>scene = Some 7, hit = Some 8\<rparr>" and tp = None
      and cs = "[Shape (mkAttrs 2 True)]"]
  from r [where bitmap = 7] r [where bitmap = 8]
  show ?thesis using v s cc i by (simp add: cachedGroup_def screen_def)
qed

text \<open>
  C4 as stated fails at the gate: a container that holds both cached bitmaps but is not
  visible (and whose hit gate is closed), drawn on an ordinary canvas, replays nothing.
\<close>

theorem cached_draw_gate_counterexample:
  "canvasCache (attrs_of invisibleCached) = Some \<lparr>scene = Some 7, hit = Some 8\<rparr>
   \<and> drawScene (Some screen) None invisibleCached = (None, [])
   \<and> drawHit (Some screen) None invisibleCached = (None, [])"
  by (simp add: invisibleCached_def mkAttrs_def screen_def skip_def)

text \<open>
  C6. When the children are drawn on a context (and their draws raise nothing), the calls
  are: the clip block if a clip applies; then save and the composite operation, exactly
  when the pass is the scene pass, the configured operation is not \<^verbatim>\<open>source-over\<close> and
  the container is not \<^verbatim>\<open>top\<close> itself; then the children's calls; then the restore of
  the composite save under the same condition; and last the restore of the clip save if
  a clip applies. The composite save and restore are nested inside the clip save and
  restore.
\<close>

theorem drawChildren_composite_lifo:
  assumes "drawEach m (Some c) tp cs = (None, kids)"
  shows "drawChildren m (Some c) tp a cs =
     (None,
        map (OnContext (cid c)) (if hasClip a then clipCalls a tp else [])
      @ map (OnContext (cid c))
          (if m = DrawScene \<and> globalCompositeOperation a \<noteq> ''source-over'' \<and> tp \<noteq> Some (nid a)
           then [Save, ApplyGlobalCompositeOperation (nid a)] else [])
      @ kids
      @ map (OnContext (cid c))
          (if m = DrawScene \<and> globalCompositeOperation a \<noteq> ''source-over'' \<and> tp \<noteq> Some (nid a)
           then [Restore] else [])
      @ map (OnContext (cid c)) (if hasClip a then [Restore] else []))"
  using assms
  by (simp add: hasComposition_def selfCache_def andThen_emit andThen_ok emit_def skip_def)

theorem drawChildren_composite_lifo_witness:
  "drawEach DrawScene (Some screen) None [Shape (mkAttrs 2 True)]
     = (None, [ShapeDraw DrawScene 2 (Some screen) None])
   \<and> drawChildren DrawScene (Some screen) None clippedAttrs [Shape (mkAttrs 2 True)]
     = (None,
        [OnContext 0 Save, OnContext 0 (Transform (AbsoluteTransform 1 None)),
         OnContext 0 BeginPath, OnContext 0 (RectPath (Some 20) (Some 20) (Some 20) (Some 20)),
         OnContext 0 Clip, OnContext 0 (Transform (Inverted (AbsoluteTransform 1 None))),
         OnContext 0 Save, OnContext 0 (ApplyGlobalCompositeOperation 1),
         ShapeDraw DrawScene 2 (Some screen) None,
         OnContext 0 Restore, OnContext 0 Restore])
   \<and> drawChildren DrawHit (Some screen) None clippedAttrs []
     = (None,
        [OnContext 0 Save, OnContext 0 (Transform (AbsoluteTransform 1 None)),
         OnContext 0 BeginPath, OnContext 0 (RectPath (Some 20) (Some 20) (Some 20) (Some 20)),
         OnContext 0 Clip, OnContext 0 (Transform (Inverted (AbsoluteTransform 1 None))),
         OnContext 0 Restore])"
proof -
  have k: "drawEach DrawScene (Some screen) None [Shape (mkAttrs 2 True)]
     = (None, [ShapeDraw DrawScene 2 (Some screen) None])"
    by (simp add: skip_def mkAttrs_def)
  have e: "drawEach DrawHit (Some screen) None [] = (None, [])" by (simp add: skip_def)
  have a: "hasClip clippedAttrs" "nid clippedAttrs = 1"
    "globalCompositeOperation clippedAttrs = ''xor''"
    "clipCalls clippedAttrs None =
       [Save, Transform (AbsoluteTransform 1 None), BeginPath,
        RectPath (Some 20) (Some 20) (Some 20) (Some 20), Clip,
        Transform (Inverted (AbsoluteTransform 1 None))]"
    by (simp_all add: clippedAttrs_def xorAttrs_def setClip_def mkAttrs_def hasClip_def
        truthy_def clipCalls_def)
  from drawChildren_composite_lifo [OF k, of clippedAttrs]
       drawChildren_composite_lifo [OF e, of clippedAttrs]
  show ?thesis using k a by (simp add: screen_def)
qed

text \<open>
  C9. Setting the clip rectangle and reading it back yields the four values that were
  set, in particular for (20, 20, 20, 20), and the four attributes that
  \<^verbatim>\<open>_drawChildren\<close> reads hold them. Whenever \<^verbatim>\<open>clipWidth\<close> or \<^verbatim>\<open>clipHeight\<close> is 0 and
  no clip function is set, no clip applies: \<^verbatim>\<open>_drawChildren\<close> makes the calls of the
  composite operation (if it applies) around the children's, and none of the clip block,
  neither its save nor its restore.
\<close>

theorem clip_roundtrip_and_zero:
  "getClip (setClip (x, y, w, h) a) = (Some x, Some y, Some w, Some h)
   \<and> clipX (setClip (x, y, w, h) a) = Some x \<and> clipY (setClip (x, y, w, h) a) = Some y
   \<and> clipWidth (setClip (x, y, w, h) a) = Some w \<and> clipHeight (setClip (x, y, w, h) a) = Some h
   \<and> ((clipWidth a = Some 0 \<or> clipHeight a = Some 0) \<and> clipFunc a = None \<longrightarrow>
        \<not> hasClip a
        \<and> drawChildren m canvas tp a cs =
            andThen (if hasComposition m a tp
                     then emit canvas [Save, ApplyGlobalCompositeOperation (nid a)] else skip)
           (andThen (drawEach m canvas tp cs)
                    (if hasComposition m a tp then emit canvas [Restore] else skip)))"
  by (auto simp: getClip_def setClip_def hasClip_def truthy_def)

theorem clip_roundtrip_and_zero_witness:
  "getClip (setClip (20, 20, 20, 20) (mkAttrs 1 True)) = (Some 20, Some 20, Some 20, Some 20)
   \<and> clipWidth (setClip (20, 20, 0, 20) (mkAttrs 1 True)) = Some 0
   \<and> clipFunc (setClip (20, 20, 0, 20) (mkAttrs 1 True)) = None
   \<and> drawChildren DrawScene (Some screen) None (setClip (20, 20, 0, 20) (mkAttrs 1 True))
        [Shape (mkAttrs 2 True)]
       = (None, [ShapeDraw DrawScene 2 (Some screen) None])"
proof -
  have w: "clipWidth (setClip (20, 20, 0, 20) (mkAttrs 1 True)) = Some 0"
    and f: "clipFunc (setClip (20, 20, 0, 20) (mkAttrs 1 True)) = None"
    and g: "\<not> hasComposition DrawScene (setClip (20, 20, 0, 20) (mkAttrs 1 True)) None"
    by (simp_all add: setClip_def mkAttrs_def hasComposition_def)
  have k: "drawEach DrawScene (Some screen) None [Shape (mkAttrs 2 True)]
     = (None, [ShapeDraw DrawScene 2 (Some screen) None])"
    by (simp add: skip_def mkAttrs_def)
  from clip_roundtrip_and_zero [of 20 20 20 20 "mkAttrs 1 True"]
  have 1: "getClip (setClip (20, 20, 20, 20) (mkAttrs 1 True)) = (Some 20, Some 20, Some 20, Some 20)"
    by blast
  from clip_roundtrip_and_zero [of _ _ _ _ "setClip (20, 20, 0, 20) (mkAttrs 1 True)"
      DrawScene "Some screen" None "[Shape (mkAttrs 2 True)]"] w f
  have "drawChildren DrawScene (Some screen) None (setClip (20, 20, 0, 20) (mkAttrs 1 True))
        [Shape (mkAttrs 2 True)]
       = andThen (if hasComposition DrawScene (setClip (20, 20, 0, 20) (mkAttrs 1 True)) None
                     then emit (Some screen) [Save, ApplyGlobalCompositeOperation (nid (setClip (20, 20, 0, 20) (mkAttrs 1 True)))] else skip)
           (andThen (drawEach DrawScene (Some screen) None [Shape (mkAttrs 2 True)])
                    (if hasComposition DrawScene (setClip (20, 20, 0, 20) (mkAttrs 1 True)) None then emit (Some screen) [Restore] else skip))"
    by blast
  then show ?thesis using 1 w f g k by simp
qed


section \<open>The client rectangle\<close>






lemma find_nodes_eq: "find_nodes m sel c = filter (m sel) (preorder (getChildren_of c))"
  by (simp add: find_nodes_def generalFind_def descendants_find_all)

lemma list_ex_filter: "list_ex P (filter Q xs) = (\<exists>s \<in> set xs. Q s \<and> P s)"
  by (auto simp: list_ex_iff)

lemma getClientRect_Container:
  "getClientRect E config (Container a cs) =
     (let selfRect =
        (case eachChild E config (nid a) cs None of
           Some (minX, minY, maxX, maxY) \<Rightarrow>
             if \<exists>s \<in> set (preorder cs). isMatch E (SelString ''Shape'') s \<and> isVisibleFrom E s (nid a)
             then \<lparr>rect_x = minX, rect_y = minY, width = maxX - minX, height = maxY - minY\<rparr>
             else zeroRect
         | None \<Rightarrow> zeroRect)
      in if \<not> isTruthy (skipTransform config)
         then transformedRect E a selfRect (relativeTo config)
         else selfRect)"
  by (simp add: find_nodes_eq list_ex_filter Let_def split: option.splits)

text \<open>
  C7, as amended. For every container that has zero children, or none of whose descendant
  shapes is effectively visible with respect to the container, the local rectangle is
  (0, 0, 0, 0): \<^verbatim>\<open>getClientRect\<close> returns it as it is when the caller skips the transform,
  and otherwise returns what \<^verbatim>\<open>_transformedRect\<close> makes of it, for \<^verbatim>\<open>getClientRect()\<close>
  without arguments too.
\<close>

theorem empty_client_rect:
  assumes "cs = [] \<or> (\<forall>s \<in> set (preorder cs).
             isMatch E (SelString ''Shape'') s \<longrightarrow> \<not> isVisibleFrom E s (nid a))"
  shows "getClientRect E config (Container a cs)
           = (if isTruthy (skipTransform config) then zeroRect
              else transformedRect E a zeroRect (relativeTo config))
       \<and> getClientRect E emptyConfig (Container a cs) = transformedRect E a zeroRect None"
proof -
  have no: "\<not> (\<exists>s \<in> set (preorder cs). isMatch E (SelString ''Shape'') s \<and> isVisibleFrom E s (nid a))"
    using assms by auto
  have self: "(case eachChild E cfg (nid a) cs None of
           Some (minX, minY, maxX, maxY) \<Rightarrow>
             if \<exists>s \<in> set (preorder cs). isMatch E (SelString ''Shape'') s \<and> isVisibleFrom E s (nid a)
             then \<lparr>rect_x = minX, rect_y = minY, width = maxX - minX, height = maxY - minY\<rparr>
             else zeroRect
         | None \<Rightarrow> zeroRect) = zeroRect" for cfg
    using no by (auto split: option.splits)
  have gen: "getClientRect E cfg (Container a cs)
           = (if isTruthy (skipTransform cfg) then zeroRect
              else transformedRect E a zeroRect (relativeTo cfg))" for cfg
    unfolding getClientRect_Container self by (simp add: Let_def)
  show ?thesis
    by (simp add: gen emptyConfig_def isTruthy_def del: getClientRect.simps)
qed

theorem empty_client_rect_witness:
  "list_all (\<lambda>s. \<not> isVisibleFrom (extAt 10 10) s 1) (preorder (getChildren_of hiddenGroup))
   \<and> getClientRect (extAt 10 10) skipping hiddenGroup
       = \<lparr>rect_x = 0, rect_y = 0, width = 0, height = 0\<rparr>
   \<and> getClientRect (extAt 10 10) emptyConfig hiddenGroup
       = \<lparr>rect_x = 10, rect_y = 10, width = 0, height = 0\<rparr>
   \<and> getClientRect extEx emptyConfig (Container (mkAttrs 1 True) [])
       = \<lparr>rect_x = 0, rect_y = 0, width = 0, height = 0\<rparr>"
proof -
  let ?cs = "[Shape (mkAttrs 2 False), Shape (mkAttrs 3 False)]"
  have v: "list_all (\<lambda>s. \<not> isVisibleFrom (extAt 10 10) s 1) (preorder (getChildren_of hiddenGroup))"
    by (simp add: hiddenGroup_def extAt_def extEx_def mkAttrs_def)
  have h: "?cs = [] \<or> (\<forall>s \<in> set (preorder ?cs).
             isMatch (extAt 10 10) (SelString ''Shape'') s
               \<longrightarrow> \<not> isVisibleFrom (extAt 10 10) s (nid (mkAttrs 1 True)))"
    by (simp add: extAt_def extEx_def mkAttrs_def)
  note t = empty_client_rect [OF h]
  have 1: "getClientRect (extAt 10 10) skipping hiddenGroup = zeroRect"
    using t [of skipping] by (simp add: hiddenGroup_def skipping_def emptyConfig_def isTruthy_def
        del: getClientRect.simps)
  have 2: "getClientRect (extAt 10 10) emptyConfig hiddenGroup
       = \<lparr>rect_x = 10, rect_y = 10, width = 0, height = 0\<rparr>"
    using t [of emptyConfig] by (simp add: hiddenGroup_def extAt_def zeroRect_def
        emptyConfig_def isTruthy_def del: getClientRect.simps)
  have e: "[] = ([]::node list) \<or> (\<forall>s \<in> set (preorder []).
             isMatch extEx (SelString ''Shape'') s \<longrightarrow> \<not> isVisibleFrom extEx s (nid (mkAttrs 1 True)))"
    by simp
  have 3: "getClientRect extEx emptyConfig (Container (mkAttrs 1 True) []) = zeroRect"
    using empty_client_rect [OF e, of emptyConfig]
    by (simp add: extEx_def del: getClientRect.simps)
  show ?thesis using v 1 2 3 by (simp add: zeroRect_def del: getClientRect.simps)
qed

text \<open>
  C7 as stated fails for a container that is not at the origin: an empty container whose
  absolute transform is the translation by (10, 10) answers \<^verbatim>\<open>getClientRect()\<close> with the
  rectangle (10, 10, 0, 0).
\<close>

theorem empty_client_rect_counterexample:
  "getClientRect (extAt 10 10) emptyConfig (Container (mkAttrs 1 True) [])
     = \<lparr>rect_x = 10, rect_y = 10, width = 0, height = 0\<rparr>"
  by (simp add: extAt_def extEx_def emptyConfig_def isTruthy_def zeroRect_def find_nodes_eq)






end
